theory Spec2Isabelle
  imports Complex_Main "HOL-Library.Word" "HOL-Library.Monad_Syntax"
begin

unbundle bit_operations_syntax

section \<open>Byte buffers and DataView reads\<close>

text \<open>
  An \<open>ArrayBuffer\<close> is a finite sequence of bytes; a \<open>DataView\<close> over it reads
  unsigned integers at a byte offset. A read whose range is not inside the buffer throws
  a \<open>RangeError\<close> in JavaScript: here it is the value \<open>None\<close>, so that every
  possible throw of the scanner is a branch of the model. JavaScript numbers are doubles;
  every offset the scanner computes is an integer far below \<open>2 ^ 53\<close>, so offsets and
  values are unbounded integers.
\<close>

type_synonym byte = "8 word"
type_synonym data_view = "byte list"

definition byteLength :: "data_view \<Rightarrow> int" where
  "byteLength view = int (length view)"

definition byteAt :: "data_view \<Rightarrow> int \<Rightarrow> int" where
  "byteAt view i = uint (view ! nat i)"

definition getUint16 :: "data_view \<Rightarrow> int \<Rightarrow> bool \<Rightarrow> int option" where
  "getUint16 view byteOffset littleEndian =
     (if byteOffset < 0 \<or> byteOffset + 2 > byteLength view then None
      else if littleEndian
        then Some (byteAt view byteOffset + 256 * byteAt view (byteOffset + 1))
        else Some (256 * byteAt view byteOffset + byteAt view (byteOffset + 1)))"

definition getUint32 :: "data_view \<Rightarrow> int \<Rightarrow> bool \<Rightarrow> int option" where
  "getUint32 view byteOffset littleEndian =
     (if byteOffset < 0 \<or> byteOffset + 4 > byteLength view then None
      else if littleEndian
        then Some (byteAt view byteOffset + 256 * byteAt view (byteOffset + 1)
                   + 65536 * byteAt view (byteOffset + 2)
                   + 16777216 * byteAt view (byteOffset + 3))
        else Some (16777216 * byteAt view byteOffset
                   + 65536 * byteAt view (byteOffset + 1)
                   + 256 * byteAt view (byteOffset + 2) + byteAt view (byteOffset + 3)))"

section \<open>The EXIF orientation scanner\<close>

text \<open>
  The inner \<open>for\<close> loop of \<open>readExifOrientation\<close> over the directory entries, from
  index \<open>i\<close>. \<open>Some (Some v)\<close>: the \<open>return\<close> inside the loop, with the value read;
  \<open>Some None\<close>: the loop ended (its condition failed, or its \<open>break\<close>) without a
  return; \<open>None\<close>: a read threw.
\<close>

function scan_tags :: "data_view \<Rightarrow> bool \<Rightarrow> int \<Rightarrow> int \<Rightarrow> int \<Rightarrow> int option option" where
  "scan_tags view little offset tags i =
     (if i < tags then
        (let tagOffset = offset + i * 12 in
         if tagOffset + 12 > byteLength view then Some None
         else do {
           tag \<leftarrow> getUint16 view tagOffset little;
           if tag = 0x0112 then do {
             v \<leftarrow> getUint16 view (tagOffset + 8) little;
             Some (Some v)
           }
           else scan_tags view little offset tags (i + 1)
         })
      else Some None)"
  by pat_completeness auto
termination
  by (relation "measure (\<lambda>(view, little, offset, tags, i). nat (tags - i))") auto

declare scan_tags.simps [simp del]

text \<open>
  One iteration of the \<open>while\<close> loop, entered at \<open>offset0\<close>: it returns from the
  function, breaks out of the loop, or goes round again with a new offset. \<open>None\<close>: a
  read threw.
\<close>

datatype scan_step = Return int | Break | Continue int

definition scan_marker :: "data_view \<Rightarrow> int \<Rightarrow> scan_step option" where
  "scan_marker view offset0 =
     (let len = byteLength view in
      if offset0 + 4 > len then Some Break
      else do {
        marker \<leftarrow> getUint16 view offset0 False;
        let offset1 = offset0 + 2;
        if marker = 0xffe1 then
          if offset1 + 2 > len then Some Break
          else do {
            exifLength \<leftarrow> getUint16 view offset1 False;
            let offset2 = offset1 + 2;
            if offset2 + 4 > len then Some Break
            else do {
              sig \<leftarrow> getUint32 view offset2 False;
              if sig \<noteq> 0x45786966 then Some (Continue (offset2 + (exifLength - 2)))
              else
                let offset3 = offset2 + 6 in
                if offset3 + 10 > len then Some Break
                else do {
                  byteOrder \<leftarrow> getUint16 view offset3 False;
                  let little = (byteOrder = 0x4949);
                  tiffOffset \<leftarrow> getUint32 view (offset3 + 4) little;
                  let offset4 = offset3 + (tiffOffset + 8);
                  if offset4 + 2 > len then Some Break
                  else do {
                    tags \<leftarrow> getUint16 view offset4 little;
                    let offset5 = offset4 + 2;
                    found \<leftarrow> scan_tags view little offset5 tags 0;
                    case found of
                      Some v \<Rightarrow> Some (Return v)
                    | None \<Rightarrow> Some (Continue offset5)
                  }
                }
            }
          }
        else if (marker AND 0xff00) \<noteq> 0xff00 then Some Break
        else if offset1 + 2 > len then Some Break
        else do {
          size \<leftarrow> getUint16 view offset1 False;
          Some (Continue (offset1 + size))
        }
      })"

text \<open>
  Facts about the reads that the loop below needs for its termination: a value read is
  never negative, and a read throws exactly when its range leaves the buffer.
\<close>

lemma byteAt_nonneg: "0 \<le> byteAt view i"
  by (simp add: byteAt_def)

lemma getUint16_nonneg: "getUint16 view off l = Some v \<Longrightarrow> 0 \<le> v"
  by (auto simp: getUint16_def byteAt_nonneg split: if_splits)

lemma getUint32_nonneg: "getUint32 view off l = Some v \<Longrightarrow> 0 \<le> v"
  by (auto simp: getUint32_def byteAt_nonneg split: if_splits)

lemma getUint16_None_iff:
  "getUint16 view off l = None \<longleftrightarrow> off < 0 \<or> byteLength view < off + 2"
  by (auto simp: getUint16_def)

lemma getUint32_None_iff:
  "getUint32 view off l = None \<longleftrightarrow> off < 0 \<or> byteLength view < off + 4"
  by (auto simp: getUint32_def)

lemma getUint16_in_bounds:
  "0 \<le> off \<Longrightarrow> off + 2 \<le> byteLength view \<Longrightarrow> \<exists>v. getUint16 view off l = Some v"
  by (simp add: getUint16_def)

lemma scan_marker_advances:
  "scan_marker view offset = Some (Continue offset') \<Longrightarrow> offset + 2 \<le> offset'"
  unfolding scan_marker_def Let_def
  by (auto split: if_splits Option.bind_splits option.splits
      dest!: getUint16_nonneg getUint32_nonneg)

text \<open>
  The \<open>while (offset < length)\<close> loop, entered at \<open>offset\<close>, with the
  \<open>return -1\<close> that follows it. It is a total function: each round that goes on
  moves the offset forward.
\<close>

function scan_from :: "data_view \<Rightarrow> int \<Rightarrow> int option" where
  "scan_from view offset =
     (if offset < byteLength view then
        (case scan_marker view offset of
           None \<Rightarrow> None
         | Some (Return v) \<Rightarrow> Some v
         | Some Break \<Rightarrow> Some (- 1)
         | Some (Continue offset') \<Rightarrow> scan_from view offset')
      else Some (- 1))"
  by pat_completeness auto
termination
proof (relation "measure (\<lambda>(view, offset). nat (byteLength view - offset))")
  show "wf (measure (\<lambda>(view, offset). nat (byteLength view - offset)))"
    by simp
next
  fix view :: data_view and offset s offset'
  assume "offset < byteLength view" "scan_marker view offset = Some s" "s = Continue offset'"
  then show "((view, offset'), (view, offset))
      \<in> measure (\<lambda>(view, offset). nat (byteLength view - offset))"
    using scan_marker_advances [of view offset offset'] by simp
qed

declare scan_from.simps [simp del]

text \<open>
  \<open>readExifOrientation\<close>: the start-of-image check, then the loop from offset 2. The
  result \<open>Some v\<close> is the number returned (\<open>- 1\<close> is "not found"); \<open>None\<close> is a
  thrown \<open>RangeError\<close>.
\<close>

definition readExifOrientation :: "data_view \<Rightarrow> int option" where
  "readExifOrientation view =
     (if byteLength view < 2 then Some (- 1)
      else do {
        soi \<leftarrow> getUint16 view 0 False;
        if soi \<noteq> 0xffd8 then Some (- 1) else scan_from view 2
      })"

text \<open>
  The number of rounds of the \<open>while\<close> loop that are entered from \<open>offset\<close> on: the
  same loop, counting instead of returning.
\<close>

function scan_iterations :: "data_view \<Rightarrow> int \<Rightarrow> nat" where
  "scan_iterations view offset =
     (if offset < byteLength view then
        (case scan_marker view offset of
           Some (Continue offset') \<Rightarrow> Suc (scan_iterations view offset')
         | _ \<Rightarrow> 1)
      else 0)"
  by pat_completeness auto
termination
proof (relation "measure (\<lambda>(view, offset). nat (byteLength view - offset))")
  show "wf (measure (\<lambda>(view, offset). nat (byteLength view - offset)))"
    by simp
next
  fix view :: data_view and offset s offset'
  assume "offset < byteLength view" "scan_marker view offset = Some s" "s = Continue offset'"
  then show "((view, offset'), (view, offset))
      \<in> measure (\<lambda>(view, offset). nat (byteLength view - offset))"
    using scan_marker_advances [of view offset offset'] by simp
qed

declare scan_iterations.simps [simp del]

section \<open>From the orientation tag to a rotation\<close>

text \<open>The \<open>switch\<close> of \<open>orientationToDegrees\<close>, with its \<open>default\<close> branch.\<close>

definition orientationToDegrees :: "int \<Rightarrow> int" where
  "orientationToDegrees orientation =
     (if orientation = 3 then 180
      else if orientation = 6 then 90
      else if orientation = 8 then 270
      else 0)"

section \<open>Loading the bytes of an image\<close>

text \<open>
  What the platform does is a parameter of the model. \<open>fetch\<close> either rejects or
  gives a response with its \<open>ok\<close> flag and the outcome of \<open>arrayBuffer()\<close>
  (\<open>None\<close>: that promise rejects). \<open>atob\<close> decodes base64 to bytes or throws
  (\<open>None\<close>).
\<close>

datatype fetch_outcome = FetchRejected | Response bool "data_view option"

record platform =
  fetch :: "string \<Rightarrow> fetch_outcome"
  atob :: "string \<Rightarrow> data_view option"

text \<open>\<open>String.prototype.indexOf\<close>: the first index where the pattern starts, or \<open>- 1\<close>.\<close>

fun indexOf_from :: "string \<Rightarrow> string \<Rightarrow> int \<Rightarrow> int" where
  "indexOf_from [] pat i = (if pat = [] then i else - 1)"
| "indexOf_from (c # cs) pat i =
     (if take (length pat) (c # cs) = pat then i else indexOf_from cs pat (i + 1))"

definition indexOf :: "string \<Rightarrow> string \<Rightarrow> int" where
  "indexOf s pat = indexOf_from s pat 0"

definition startsWith :: "string \<Rightarrow> string \<Rightarrow> bool" where
  "startsWith s pat = (take (length pat) s = pat)"

text \<open>
  \<open>dataUrlToArrayBuffer\<close>: \<open>null\<close> is \<open>None\<close>. The \<open>try\<close>/\<open>catch\<close> turns
  a throw of \<open>atob\<close> into \<open>null\<close>; the copy loop writes each decoded byte to the
  new buffer.
\<close>

definition dataUrlToArrayBuffer :: "platform \<Rightarrow> string \<Rightarrow> data_view option" where
  "dataUrlToArrayBuffer plat dataUrl =
     (let base64Index = indexOf dataUrl ''base64,'' in
      if base64Index = - 1 then None
      else
        (case atob plat (drop (nat (base64Index + 7)) dataUrl) of
           None \<Rightarrow> None
         | Some binary \<Rightarrow> Some binary))"

text \<open>
  \<open>loadImageBuffer\<close>: everything is inside one \<open>try\<close>/\<open>catch\<close> that returns
  \<open>null\<close>, so a rejected \<open>fetch\<close> or \<open>arrayBuffer()\<close> is \<open>None\<close> as well.
\<close>

definition loadImageBuffer :: "platform \<Rightarrow> string \<Rightarrow> data_view option" where
  "loadImageBuffer plat imageUrl =
     (if startsWith imageUrl ''data:'' then dataUrlToArrayBuffer plat imageUrl
      else
        (case fetch plat imageUrl of
           FetchRejected \<Rightarrow> None
         | Response ok body \<Rightarrow> if \<not> ok then None else body))"

text \<open>
  \<open>getImageRotationDegrees\<close>: \<open>Some d\<close> is the value the promise resolves with,
  \<open>None\<close> a rejected promise (only a throw of the scanner could reject it, nothing
  here catches one).
\<close>

definition getImageRotationDegrees :: "platform \<Rightarrow> string \<Rightarrow> int option" where
  "getImageRotationDegrees plat imageUrl =
     (case loadImageBuffer plat imageUrl of
        None \<Rightarrow> Some 0
      | Some buffer \<Rightarrow> do {
          orientation \<leftarrow> readExifOrientation buffer;
          Some (orientationToDegrees orientation)
        })"

section \<open>The render compositor\<close>

text \<open>
  The numbers of the compositor are JavaScript doubles. They are modelled as real numbers:
  the formulas are those of the code, without rounding. The rotation is an integer number of
  degrees; \<open>%\<close> is JavaScript's remainder, whose sign is that of the dividend.
\<close>

definition js_rem :: "int \<Rightarrow> int \<Rightarrow> int" where
  "js_rem a b = sgn a * (\<bar>a\<bar> mod \<bar>b\<bar>)"

definition rotationNormalsed :: "int \<Rightarrow> int" where
  "rotationNormalsed imageRotation = js_rem (js_rem imageRotation 360 + 360) 360"

definition isUpright :: "int \<Rightarrow> bool" where
  "isUpright imageRotation = (js_rem (rotationNormalsed imageRotation) 180 = 0)"

definition rotatedWidth :: "real \<Rightarrow> real \<Rightarrow> int \<Rightarrow> real" where
  "rotatedWidth imgWidth imgHeight imageRotation =
     (if isUpright imageRotation then imgWidth else imgHeight)"

definition rotatedHeight :: "real \<Rightarrow> real \<Rightarrow> int \<Rightarrow> real" where
  "rotatedHeight imgWidth imgHeight imageRotation =
     (if isUpright imageRotation then imgHeight else imgWidth)"

definition maxHeight :: real where
  "maxHeight = 600"

record display_transform =
  displayWidth :: real
  displayHeight :: real
  scaleFactor :: real

text \<open>
  The size of the drawing surface and the scale, from the container's width, the natural
  size of the image and the rotation (the body of \<open>img.onload\<close> up to \<open>scaleFactor\<close>).
\<close>

definition compute_display :: "real \<Rightarrow> real \<Rightarrow> real \<Rightarrow> int \<Rightarrow> display_transform" where
  "compute_display containerWidth imgWidth imgHeight imageRotation =
     (let rw = rotatedWidth imgWidth imgHeight imageRotation;
          rh = rotatedHeight imgWidth imgHeight imageRotation;
          dw0 = containerWidth;
          dh0 = containerWidth * (rh / rw);
          dh = (if dh0 > maxHeight then maxHeight else dh0);
          dw = (if dh0 > maxHeight then maxHeight * (rw / rh) else dw0)
      in \<lparr>displayWidth = dw, displayHeight = dh, scaleFactor = dw / rw\<rparr>)"

text \<open>
  The current transformation matrix of a 2D canvas context, \<open>(a, b, c, d, e, f)\<close>: a
  point \<open>(x, y)\<close> of user space is drawn at \<open>(a x + c y + e, b x + d y + f)\<close> on the
  surface. \<open>translate\<close>, \<open>rotate\<close> and \<open>scale\<close> multiply the matrix on the right.
\<close>

type_synonym ctm = "real \<times> real \<times> real \<times> real \<times> real \<times> real"

definition ctm_identity :: ctm where
  "ctm_identity = (1, 0, 0, 1, 0, 0)"

fun ctx_translate :: "real \<Rightarrow> real \<Rightarrow> ctm \<Rightarrow> ctm" where
  "ctx_translate tx ty (a, b, c, d, e, f) = (a, b, c, d, a * tx + c * ty + e, b * tx + d * ty + f)"

fun ctx_rotate :: "real \<Rightarrow> ctm \<Rightarrow> ctm" where
  "ctx_rotate angle (a, b, c, d, e, f) =
     (a * cos angle + c * sin angle, b * cos angle + d * sin angle,
      c * cos angle - a * sin angle, d * cos angle - b * sin angle, e, f)"

fun ctx_scale :: "real \<Rightarrow> real \<Rightarrow> ctm \<Rightarrow> ctm" where
  "ctx_scale sx sy (a, b, c, d, e, f) = (a * sx, b * sx, c * sy, d * sy, e, f)"

fun on_surface :: "ctm \<Rightarrow> real \<times> real \<Rightarrow> real \<times> real" where
  "on_surface (a, b, c, d, e, f) (x, y) = (a * x + c * y + e, b * x + d * y + f)"

text \<open>
  The transform that is active while the image and the boxes are drawn: \<open>translate\<close> to
  the centre of the surface, \<open>rotate\<close>, \<open>scale\<close>, in this order.
\<close>

definition active_transform :: "real \<Rightarrow> real \<Rightarrow> int \<Rightarrow> real \<Rightarrow> ctm" where
  "active_transform dw dh degrees sf =
     ctx_scale sf sf
       (ctx_rotate (real_of_int degrees * pi / 180)
          (ctx_translate (dw / 2) (dh / 2) ctm_identity))"

text \<open>
  The rectangle \<open>(x, y, width, height)\<close> passed to \<open>ctx.rect\<close> and \<open>ctx.fillRect\<close>
  for a box \<open>[x1, y1, x2, y2]\<close>. Only arrays of exactly four numbers enter the list of
  boxes (\<open>bbox.length === 4\<close>); the others are not drawn (\<open>None\<close>).
\<close>

fun box_rect :: "real \<Rightarrow> real \<Rightarrow> real list \<Rightarrow> (real \<times> real \<times> real \<times> real) option" where
  "box_rect imgWidth imgHeight [x1, y1, x2, y2] =
     Some (x1 - imgWidth / 2, y1 - imgHeight / 2, x2 - x1, y2 - y1)"
| "box_rect imgWidth imgHeight bbox = None"

section \<open>Highlighting a field\<close>

text \<open>
  \<open>App\<close> holds \<open>highlightedField\<close> (\<open>string | null\<close>) and passes its setter to the
  visualizer as \<open>onFieldClick\<close> and to the results list as \<open>onFieldSelect\<close>. A
  handler takes the state before the click and gives the state after it.
\<close>

type_synonym highlight_state = "string option"

definition setHighlightedField :: "string option \<Rightarrow> highlight_state \<Rightarrow> highlight_state" where
  "setHighlightedField v highlightedField = v"

text \<open>
  The legend button of the visualizer: \<open>onClick = () => onFieldClick?.(bboxInfo.field)\<close>;
  the prop is optional (\<open>None\<close>: not given, nothing happens).
\<close>

definition legend_onClick ::
  "(string option \<Rightarrow> highlight_state \<Rightarrow> highlight_state) option \<Rightarrow> string
     \<Rightarrow> highlight_state \<Rightarrow> highlight_state" where
  "legend_onClick onFieldClick field highlightedField =
     (case onFieldClick of
        None \<Rightarrow> highlightedField
      | Some callback \<Rightarrow> callback (Some field) highlightedField)"

text \<open>
  A field row of the results list:
  \<open>onClick = () => onFieldSelect(highlightedField === field ? null : field)\<close>.
\<close>

definition results_onClick ::
  "(string option \<Rightarrow> highlight_state \<Rightarrow> highlight_state) \<Rightarrow> string
     \<Rightarrow> highlight_state \<Rightarrow> highlight_state" where
  "results_onClick onFieldSelect field highlightedField =
     onFieldSelect (if highlightedField = Some field then None else Some field) highlightedField"

text \<open>The two handlers as \<open>App\<close> wires them, both to \<open>setHighlightedField\<close>.\<close>

definition app_legend_click :: "string \<Rightarrow> highlight_state \<Rightarrow> highlight_state" where
  "app_legend_click field = legend_onClick (Some setHighlightedField) field"

definition app_results_click :: "string \<Rightarrow> highlight_state \<Rightarrow> highlight_state" where
  "app_results_click field = results_onClick setHighlightedField field"

section \<open>The orientation effect of the visualizer\<close>

text \<open>
  The first \<open>useEffect\<close> of \<open>BoundingBoxVisualizer\<close> runs when the component mounts
  and whenever \<open>imageUrl\<close> changes. Each run has a variable \<open>cancelled\<close> of its own, in
  the closure of its \<open>detectOrientation\<close> and of the cleanup function it returns; React
  calls the cleanup function of the last run before it runs the effect again. JavaScript
  runs one handler at a time, so the component is a state machine over two events: the
  prop changes, or the \<open>await\<close> of some run resumes with the scan's result.

  The state holds \<open>imageRotation\<close>, the closure of every run so far (its \<open>cancelled\<close>,
  and whether its scan is still awaited), and the index of the run whose cleanup function
  React holds, if the last run returned one.
\<close>

record effect_run =
  cancelled :: bool
  inFlight :: bool

record visualizer =
  imageRotation :: int
  runs :: "effect_run list"
  cleanup :: "nat option"

datatype event = ImageUrlChanged "string option" | ScanResolved nat int

definition mounted :: visualizer where
  "mounted = \<lparr>imageRotation = 0, runs = [], cleanup = None\<rparr>"

text \<open>The cleanup function: \<open>cancelled = true\<close> in the closure of the run it belongs to.\<close>

definition run_cleanup :: "visualizer \<Rightarrow> visualizer" where
  "run_cleanup s =
     (case cleanup s of
        None \<Rightarrow> s
      | Some k \<Rightarrow> s\<lparr>runs := (runs s)[k := (runs s ! k)\<lparr>cancelled := True\<rparr>]\<rparr>)"

text \<open>
  The body of the effect. \<open>!imageUrl\<close> holds for \<open>null\<close> and for the empty string:
  the rotation is reset and nothing is returned. Otherwise the scan starts and the cleanup
  function is returned.
\<close>

definition run_effect :: "string option \<Rightarrow> visualizer \<Rightarrow> visualizer" where
  "run_effect imageUrl s =
     (if imageUrl = None \<or> imageUrl = Some [] then
        s\<lparr>imageRotation := 0,
          runs := runs s @ [\<lparr>cancelled = False, inFlight = False\<rparr>],
          cleanup := None\<rparr>
      else
        s\<lparr>runs := runs s @ [\<lparr>cancelled = False, inFlight = True\<rparr>],
          cleanup := Some (length (runs s))\<rparr>)"

text \<open>
  One event. \<open>ScanResolved k rotationDegrees\<close> is the rest of \<open>detectOrientation\<close> of
  run \<open>k\<close> after its \<open>await\<close>; it happens once, for a run whose scan is awaited, and
  is no event at all otherwise.
\<close>

fun step :: "visualizer \<Rightarrow> event \<Rightarrow> visualizer" where
  "step s (ImageUrlChanged imageUrl) = run_effect imageUrl (run_cleanup s)"
| "step s (ScanResolved k rotationDegrees) =
     (if k < length (runs s) \<and> inFlight (runs s ! k) then
        (let s' = s\<lparr>runs := (runs s)[k := (runs s ! k)\<lparr>inFlight := False\<rparr>]\<rparr> in
         if \<not> cancelled (runs s ! k) then s'\<lparr>imageRotation := rotationDegrees\<rparr> else s')
      else s)"

text \<open>An event that is the completion of a scan other than that of run \<open>n\<close>.\<close>

fun stale_for :: "nat \<Rightarrow> event \<Rightarrow> bool" where
  "stale_for n (ImageUrlChanged imageUrl) = False"
| "stale_for n (ScanResolved k rotationDegrees) = (k \<noteq> n)"

text \<open>
  The invariant of the state machine: a run whose scan is awaited and which is not
  cancelled is the run whose cleanup function React holds.
\<close>

definition live_is_current :: "visualizer \<Rightarrow> bool" where
  "live_is_current s \<longleftrightarrow>
     (\<forall>k < length (runs s). inFlight (runs s ! k) \<and> \<not> cancelled (runs s ! k) \<longrightarrow> cleanup s = Some k)
     \<and> (\<forall>k. cleanup s = Some k \<longrightarrow> k < length (runs s))"

section \<open>The draw effect of the visualizer\<close>

text \<open>
  The second \<open>useEffect\<close> paints the canvas. It runs when \<open>imageUrl\<close>, the boxes,
  \<open>highlightedField\<close> or \<open>imageRotation\<close> change. Each run makes a new \<open>Image\<close>,
  gives it an \<open>onload\<close> handler and sets its \<open>src\<close>; the handler's closure holds
  the \<open>imageUrl\<close> and the \<open>imageRotation\<close> of the render the run belongs to. The
  effect returns no cleanup function and the handler tests no flag. The images load in any
  order, so \<open>onload\<close> of run \<open>j\<close> is an event of its own.

  The state adds to that of the orientation effect the current \<open>imageUrl\<close>, the closure
  of every run of the draw effect (and whether its image is still loading), and what the
  canvas shows: the address of the image painted last and the normalised rotation it was
  painted with.
\<close>

record draw_run =
  drawUrl :: string
  drawRotation :: int
  loading :: bool

record screen =
  vis :: visualizer
  imageUrlProp :: "string option"
  draws :: "draw_run list"
  canvas :: "(string \<times> int) option"

datatype ui_event = Visualizer event | OverlayChanged | ImageLoaded nat

definition first_render :: screen where
  "first_render = \<lparr>vis = mounted, imageUrlProp = None, draws = [], canvas = None\<rparr>"

text \<open>
  The body of the draw effect: nothing without an address (\<open>!imageUrl\<close>; there is no
  canvas then either), otherwise a new image starts loading.
\<close>

definition run_draw_effect :: "screen \<Rightarrow> screen" where
  "run_draw_effect d =
     (case imageUrlProp d of
        None \<Rightarrow> d
      | Some url \<Rightarrow>
          if url = [] then d
          else d\<lparr>draws := draws d
                 @ [\<lparr>drawUrl = url, drawRotation = imageRotation (vis d), loading = True\<rparr>]\<rparr>)"

text \<open>
  One event of the whole component. A change of the address runs both effects, the
  orientation effect first; without an address the component renders no canvas. A scan that
  resolves runs the draw effect again when it changed \<open>imageRotation\<close>.
  \<open>OverlayChanged\<close> is a change of the boxes or of the highlighted field.
  \<open>ImageLoaded j\<close> is the \<open>onload\<close> handler of run \<open>j\<close>: it returns when there is
  no canvas, and paints its own image with its own rotation otherwise.
\<close>

fun ui_step :: "screen \<Rightarrow> ui_event \<Rightarrow> screen" where
  "ui_step d (Visualizer (ImageUrlChanged url)) =
     run_draw_effect
       (d\<lparr>vis := step (vis d) (ImageUrlChanged url), imageUrlProp := url,
          canvas := (if url = None \<or> url = Some [] then None else canvas d)\<rparr>)"
| "ui_step d (Visualizer (ScanResolved k rotationDegrees)) =
     (let d' = d\<lparr>vis := step (vis d) (ScanResolved k rotationDegrees)\<rparr> in
      if imageRotation (vis d') \<noteq> imageRotation (vis d) then run_draw_effect d' else d')"
| "ui_step d OverlayChanged = run_draw_effect d"
| "ui_step d (ImageLoaded j) =
     (if j < length (draws d) \<and> loading (draws d ! j) then
        (let d' = d\<lparr>draws := (draws d)[j := (draws d ! j)\<lparr>loading := False\<rparr>]\<rparr> in
         if imageUrlProp d = None \<or> imageUrlProp d = Some [] then d'
         else d'\<lparr>canvas := Some (drawUrl (draws d ! j),
                                  rotationNormalsed (drawRotation (draws d ! j)))\<rparr>)
      else d)"

section \<open>Concrete inputs\<close>

text \<open>
  A JPEG with one APP1 segment holding EXIF as the format lays it out: the string
  \<open>Exif\<close> and two zero bytes, the TIFF header (byte order, 42, the offset 8 of IFD0
  from the start of the header), then IFD0 with one entry, tag \<open>0x0112\<close>, type SHORT,
  count 1, value 6, and the offset 0 of the next directory. Once big-endian (\<open>MM\<close>), once
  little-endian (\<open>II\<close>).
\<close>

definition exif_mm_6 :: data_view where
  "exif_mm_6 =
     [0xFF, 0xD8, 0xFF, 0xE1, 0x00, 0x22, 0x45, 0x78, 0x69, 0x66, 0x00, 0x00,
      0x4D, 0x4D, 0x00, 0x2A, 0x00, 0x00, 0x00, 0x08,
      0x00, 0x01,
      0x01, 0x12, 0x00, 0x03, 0x00, 0x00, 0x00, 0x01, 0x00, 0x06, 0x00, 0x00,
      0x00, 0x00, 0x00, 0x00]"

definition exif_ii_6 :: data_view where
  "exif_ii_6 =
     [0xFF, 0xD8, 0xFF, 0xE1, 0x00, 0x22, 0x45, 0x78, 0x69, 0x66, 0x00, 0x00,
      0x49, 0x49, 0x2A, 0x00, 0x08, 0x00, 0x00, 0x00,
      0x01, 0x00,
      0x12, 0x01, 0x03, 0x00, 0x01, 0x00, 0x00, 0x00, 0x06, 0x00, 0x00, 0x00,
      0x00, 0x00, 0x00, 0x00]"

text \<open>
  The big-endian buffer again, with eight zero bytes between the TIFF header and the
  directory: the header still says 8, the directory is at 16 from the header's start.
\<close>

definition exif_mm_6_shifted :: data_view where
  "exif_mm_6_shifted =
     [0xFF, 0xD8, 0xFF, 0xE1, 0x00, 0x2A, 0x45, 0x78, 0x69, 0x66, 0x00, 0x00,
      0x4D, 0x4D, 0x00, 0x2A, 0x00, 0x00, 0x00, 0x08,
      0x00, 0x00, 0x00, 0x00, 0x00, 0x00, 0x00, 0x00,
      0x00, 0x01,
      0x01, 0x12, 0x00, 0x03, 0x00, 0x00, 0x00, 0x01, 0x00, 0x06, 0x00, 0x00,
      0x00, 0x00, 0x00, 0x00]"

text \<open>
  An EXIF segment whose directory, where the scanner looks for it, declares three entries;
  the buffer ends eight bytes into the third. The bytes of the first two entries are
  themselves an APP1 marker, \<open>Exif\<close>, a TIFF header and a directory with the
  orientation entry.
\<close>

definition cut_off_ifd :: data_view where
  "cut_off_ifd =
     [0xFF, 0xD8, 0xFF, 0xE1, 0x00, 0x32, 0x45, 0x78, 0x69, 0x66, 0x00, 0x00,
      0x4D, 0x4D, 0x00, 0x2A, 0x00, 0x00, 0x00, 0x00,
      0x00, 0x03,
      0xFF, 0xE1, 0x00, 0x1E, 0x45, 0x78, 0x69, 0x66, 0x00, 0x00,
      0x4D, 0x4D, 0x00, 0x2A, 0x00, 0x00, 0x00, 0x00,
      0x00, 0x01,
      0x01, 0x12, 0x00, 0x03, 0x00, 0x00, 0x00, 0x01, 0x00, 0x06, 0x00, 0x00]"

text \<open>
  A JPEG with an APP1 segment that is not EXIF (it starts with \<open>http\<close>), an APP0 segment
  and the end-of-image marker.
\<close>

definition two_segments :: data_view where
  "two_segments =
     [0xFF, 0xD8,
      0xFF, 0xE1, 0x00, 0x08, 0x68, 0x74, 0x74, 0x70, 0x00, 0x00,
      0xFF, 0xE0, 0x00, 0x04, 0x00, 0x00,
      0xFF, 0xD9]"

text \<open>
  A platform where \<open>fetch\<close> rejects for one address and answers every other with a
  response that is not \<open>ok\<close>, and where \<open>atob\<close> throws.
\<close>

definition offline :: platform where
  "offline =
     \<lparr>fetch = (\<lambda>url. if url = ''http://kyc/a.jpg'' then FetchRejected else Response False None),
      atob = (\<lambda>s. None)\<rparr>"

text \<open>
  The component mounts with a first address and the address is replaced while the first
  scan and the first image are still under way; the second scan resolves with 90 degrees,
  then the first with 180.
\<close>

definition replaced_mid_flight :: "ui_event list" where
  "replaced_mid_flight =
     [Visualizer (ImageUrlChanged (Some ''first.jpg'')),
      Visualizer (ImageUrlChanged (Some ''second.jpg'')),
      Visualizer (ScanResolved 1 90),
      Visualizer (ScanResolved 0 180)]"

section \<open>The scanner never throws and always returns\<close>

lemma scan_tags_no_throw:
  "0 \<le> offset \<Longrightarrow> 0 \<le> i \<Longrightarrow> \<exists>r. scan_tags view little offset tags i = Some r"
proof (induction view little offset tags i rule: scan_tags.induct)
  case (1 view little offset tags i)
  show ?case
  proof (cases "i < tags \<and> offset + i * 12 + 12 \<le> byteLength view")
    case False
    then show ?thesis by (subst scan_tags.simps) (auto simp: Let_def)
  next
    case True
    then obtain t where t: "getUint16 view (offset + i * 12) little = Some t"
      using getUint16_in_bounds[of "offset + i * 12" view little] 1(2,3) by auto
    from True obtain v where v: "getUint16 view (offset + i * 12 + 8) little = Some v"
      using getUint16_in_bounds[of "offset + i * 12 + 8" view little] 1(2,3) by auto
    show ?thesis
    proof (cases "t = 0x0112")
      case True
      with \<open>i < tags \<and> _\<close> t v show ?thesis by (subst scan_tags.simps) (simp add: Let_def)
    next
      case False
      have "\<exists>r. scan_tags view little offset tags (i + 1) = Some r"
        using 1(1)[OF _ refl _ t False] True 1(2,3) by simp
      with \<open>i < tags \<and> _\<close> t False show ?thesis by (subst scan_tags.simps) (simp add: Let_def)
    qed
  qed
qed

lemma scan_marker_no_throw:
  assumes "0 \<le> offset"
  shows "\<exists>s. scan_marker view offset = Some s"
proof -
  have tags: "\<And>l off t. 0 \<le> off \<Longrightarrow> scan_tags view l off t 0 \<noteq> None"
    using scan_tags_no_throw by fastforce
  show ?thesis
    using assms unfolding scan_marker_def Let_def
    by (auto simp: getUint16_None_iff getUint32_None_iff tags
        split: if_splits Option.bind_splits option.splits
        dest!: getUint16_nonneg getUint32_nonneg)
qed

lemma scan_from_no_throw:
  "0 \<le> offset \<Longrightarrow> \<exists>v. scan_from view offset = Some v"
proof (induction view offset rule: scan_from.induct)
  case (1 view offset)
  obtain s where s: "scan_marker view offset = Some s"
    using scan_marker_no_throw[OF 1(2)] by blast
  show ?case
  proof (cases "offset < byteLength view")
    case False
    then show ?thesis by (subst scan_from.simps) simp
  next
    case True
    show ?thesis
    proof (cases s)
      case (Continue offset')
      with s have "offset + 2 \<le> offset'" by (auto dest: scan_marker_advances)
      with 1(2) have "0 \<le> offset'" by simp
      from 1(1)[OF True s Continue this] True s Continue show ?thesis
        by (subst scan_from.simps) simp
    qed (use True s in \<open>subst scan_from.simps, simp\<close>)+
  qed
qed

lemma readExifOrientation_no_throw: "\<exists>v. readExifOrientation view = Some v"
proof (cases "byteLength view < 2")
  case True
  then show ?thesis by (simp add: readExifOrientation_def)
next
  case False
  then obtain soi where "getUint16 view 0 False = Some soi"
    using getUint16_in_bounds[of 0 view False] by auto
  then show ?thesis
    using False scan_from_no_throw[of 2 view] by (auto simp: readExifOrientation_def)
qed

text \<open>The answer is "not found" without a start-of-image marker, and when the loop has
  no room left for a marker and a length.\<close>

lemma readExifOrientation_not_jpeg:
  assumes "byteLength view < 2 \<or> getUint16 view 0 False \<noteq> Some 0xffd8"
  shows "readExifOrientation view = Some (- 1)"
proof (cases "byteLength view < 2")
  case True
  then show ?thesis by (simp add: readExifOrientation_def)
next
  case False
  then obtain soi where soi: "getUint16 view 0 False = Some soi"
    using getUint16_in_bounds [of 0 view False] by auto
  with assms False have "soi \<noteq> 0xffd8" by auto
  with False soi show ?thesis by (simp add: readExifOrientation_def)
qed

lemma scan_from_no_room:
  assumes "byteLength view < offset + 4"
  shows "scan_from view offset = Some (- 1)"
  using assms by (subst scan_from.simps) (simp add: scan_marker_def)

text \<open>How far the two skips of the loop move the offset.\<close>

lemma scan_marker_app1_skip:
  assumes "getUint16 view offset False = Some 0xffe1"
    and "getUint16 view (offset + 2) False = Some exifLength"
    and "getUint32 view (offset + 4) False = Some sig"
    and "sig \<noteq> 0x45786966"
  shows "scan_marker view offset = Some (Continue (offset + (exifLength + 2)))"
proof -
  from assms(3) have "offset + 8 \<le> byteLength view"
    by (simp add: getUint32_def split: if_splits)
  moreover from assms(3) have "getUint32 view (4 + offset) False = Some sig"
    by (simp add: add.commute)
  ultimately show ?thesis
    using assms(1,2,4) by (simp add: scan_marker_def Let_def)
qed

lemma scan_marker_segment_skip:
  assumes "getUint16 view offset False = Some marker"
    and "marker \<noteq> 0xffe1" and "marker AND 0xff00 = 0xff00"
    and "getUint16 view (offset + 2) False = Some sz"
  shows "scan_marker view offset = Some (Continue (offset + (sz + 2)))"
proof -
  from assms(4) have "offset + 4 \<le> byteLength view"
    by (simp add: getUint16_def split: if_splits)
  with assms show ?thesis
    by (simp add: scan_marker_def Let_def)
qed

text \<open>Every round that goes on uses up at least two bytes of what is left.\<close>

lemma scan_iterations_bound:
  "0 \<le> offset \<Longrightarrow> int (scan_iterations view offset) * 2 \<le> max 0 (byteLength view - offset + 1)"
proof (induction view offset rule: scan_iterations.induct)
  case (1 view offset)
  show ?case
  proof (cases "offset < byteLength view")
    case False
    then show ?thesis by (subst scan_iterations.simps) simp
  next
    case True
    show ?thesis
    proof (cases "scan_marker view offset")
      case None
      with True show ?thesis by (subst scan_iterations.simps) simp
    next
      case (Some s)
      show ?thesis
      proof (cases s)
        case (Continue offset')
        with Some have adv: "offset + 2 \<le> offset'" by (auto dest: scan_marker_advances)
        with 1(2) have "0 \<le> offset'" by simp
        from 1(1)[OF True Some Continue this] True Some Continue adv show ?thesis
          by (subst scan_iterations.simps) simp
      qed (use True Some in \<open>subst scan_iterations.simps, simp\<close>)+
    qed
  qed
qed

lemma scan_iterations_half: "scan_iterations view 2 \<le> length view div 2"
  using scan_iterations_bound[of 2 view] by (simp add: byteLength_def)

lemma getImageRotationDegrees_resolves: "\<exists>d. getImageRotationDegrees plat imageUrl = Some d"
proof (cases "loadImageBuffer plat imageUrl")
  case None
  then show ?thesis by (simp add: getImageRotationDegrees_def)
next
  case (Some buffer)
  obtain v where "readExifOrientation buffer = Some v"
    using readExifOrientation_no_throw by blast
  with Some show ?thesis by (simp add: getImageRotationDegrees_def)
qed

section \<open>The normalised rotation\<close>

lemma js_rem_nonneg: "0 \<le> a \<Longrightarrow> 0 < b \<Longrightarrow> js_rem a b = a mod b"
  by (cases "a = 0") (simp_all add: js_rem_def)

lemma js_rem_bounds: "0 < b \<Longrightarrow> - b < js_rem a b \<and> js_rem a b < b"
proof -
  assume b: "0 < b"
  have m: "0 \<le> \<bar>a\<bar> mod b" "\<bar>a\<bar> mod b < b"
    using b by simp_all
  have "js_rem a b = \<bar>a\<bar> mod b \<or> js_rem a b = - (\<bar>a\<bar> mod b) \<or> js_rem a b = 0"
    using b by (cases "a < 0"; cases "a = 0") (simp_all add: js_rem_def)
  with m b show ?thesis by linarith
qed

lemma rotationNormalsed_mod: "rotationNormalsed r = (js_rem r 360 + 360) mod 360"
  using js_rem_bounds [of 360 r] by (simp add: rotationNormalsed_def js_rem_nonneg)

lemma rotationNormalsed_range: "0 \<le> rotationNormalsed r \<and> rotationNormalsed r < 360"
  by (simp add: rotationNormalsed_mod)

lemma isUpright_iff: "isUpright r \<longleftrightarrow> rotationNormalsed r mod 180 = 0"
  using rotationNormalsed_range [of r] by (simp add: isUpright_def js_rem_nonneg)

lemma rotationNormalsed_values:
  "rotationNormalsed 0 = 0" "rotationNormalsed 90 = 90"
  "rotationNormalsed 180 = 180" "rotationNormalsed 270 = 270"
  by (simp_all add: rotationNormalsed_def js_rem_def)

section \<open>The invariant of the orientation effect\<close>

lemma run_cleanup_length [simp]: "length (runs (run_cleanup s)) = length (runs s)"
  by (simp add: run_cleanup_def split: option.splits)

lemma run_cleanup_rotation [simp]: "imageRotation (run_cleanup s) = imageRotation s"
  by (simp add: run_cleanup_def split: option.splits)

lemma run_cleanup_cancels:
  assumes "live_is_current s" "k < length (runs s)" "inFlight (runs (run_cleanup s) ! k)"
  shows "cancelled (runs (run_cleanup s) ! k)"
proof (cases "cleanup s")
  case None
  with assms show ?thesis by (auto simp: run_cleanup_def live_is_current_def)
next
  case (Some c)
  show ?thesis
  proof (cases "k = c")
    case True
    with Some assms(2) show ?thesis by (simp add: run_cleanup_def)
  next
    case False
    with Some assms show ?thesis by (auto simp: run_cleanup_def live_is_current_def)
  qed
qed

lemma live_is_current_effect:
  assumes "live_is_current s"
  shows "live_is_current (run_effect imageUrl (run_cleanup s))"
proof -
  let ?c = "run_cleanup s"
  have old: "\<And>k. k < length (runs s) \<Longrightarrow> inFlight (runs ?c ! k) \<Longrightarrow> cancelled (runs ?c ! k)"
    using run_cleanup_cancels[OF assms] by blast
  show ?thesis
  proof (cases "imageUrl = None \<or> imageUrl = Some []")
    case True
    then have r: "runs (run_effect imageUrl ?c) = runs ?c @ [\<lparr>cancelled = False, inFlight = False\<rparr>]"
      and c: "cleanup (run_effect imageUrl ?c) = None"
      by (simp_all add: run_effect_def)
    show ?thesis
      unfolding live_is_current_def r c using old
      by (auto simp: nth_append less_Suc_eq)
  next
    case False
    then have r: "runs (run_effect imageUrl ?c) = runs ?c @ [\<lparr>cancelled = False, inFlight = True\<rparr>]"
      and c: "cleanup (run_effect imageUrl ?c) = Some (length (runs s))"
      by (simp_all add: run_effect_def)
    show ?thesis
      unfolding live_is_current_def r c using old
      by (auto simp: nth_append less_Suc_eq)
  qed
qed

lemma live_is_current_resolved:
  assumes "live_is_current s"
  shows "live_is_current (step s (ScanResolved k d))"
proof (cases "k < length (runs s) \<and> inFlight (runs s ! k)")
  case False
  with assms show ?thesis by auto
next
  case True
  let ?rs = "(runs s)[k := (runs s ! k)\<lparr>inFlight := False\<rparr>]"
  have r: "runs (step s (ScanResolved k d)) = ?rs"
    and c: "cleanup (step s (ScanResolved k d)) = cleanup s"
    using True by (simp_all add: Let_def)
  have "\<And>j. j < length (runs s) \<Longrightarrow> inFlight (?rs ! j) \<Longrightarrow> \<not> cancelled (?rs ! j)
      \<Longrightarrow> cleanup s = Some j"
  proof -
    fix j assume j: "j < length (runs s)" "inFlight (?rs ! j)" "\<not> cancelled (?rs ! j)"
    then have "j \<noteq> k" by (auto simp: nth_list_update)
    with j have "inFlight (runs s ! j)" "\<not> cancelled (runs s ! j)" by simp_all
    with assms j(1) show "cleanup s = Some j" unfolding live_is_current_def by blast
  qed
  moreover have "\<And>j. cleanup s = Some j \<Longrightarrow> j < length (runs s)"
    using assms unfolding live_is_current_def by blast
  ultimately show ?thesis
    unfolding live_is_current_def r c length_list_update by blast
qed

lemma live_is_current_step: "live_is_current s \<Longrightarrow> live_is_current (step s e)"
  by (cases e) (simp_all add: live_is_current_effect live_is_current_resolved del: step.simps(2))

lemma live_is_current_foldl: "live_is_current s \<Longrightarrow> live_is_current (foldl step s evs)"
  by (induction evs arbitrary: s) (simp_all add: live_is_current_step del: step.simps)

lemma live_is_current_mounted: "live_is_current mounted"
  by (simp add: live_is_current_def mounted_def)

text \<open>
  While React holds the cleanup function of run \<open>n\<close>, the completion of any other scan
  changes neither the rotation nor the closure of run \<open>n\<close>.
\<close>

lemma stale_step:
  assumes "live_is_current s" "cleanup s = Some n" "stale_for n e"
  shows "imageRotation (step s e) = imageRotation s \<and> cleanup (step s e) = Some n
    \<and> length (runs (step s e)) = length (runs s) \<and> runs (step s e) ! n = runs s ! n"
proof (cases e)
  case (ImageUrlChanged imageUrl)
  with assms(3) show ?thesis by simp
next
  case (ScanResolved k d)
  with assms(3) have kn: "k \<noteq> n" by simp
  show ?thesis
  proof (cases "k < length (runs s) \<and> inFlight (runs s ! k)")
    case False
    with ScanResolved assms(2) show ?thesis by auto
  next
    case True
    have "cancelled (runs s ! k)"
    proof (rule ccontr)
      assume "\<not> cancelled (runs s ! k)"
      with True assms(1) have "cleanup s = Some k" unfolding live_is_current_def by blast
      with assms(2) kn show False by simp
    qed
    with True kn assms(2) show ?thesis
      unfolding ScanResolved by (simp add: Let_def)
  qed
qed

lemma stale_foldl:
  assumes "live_is_current s" "cleanup s = Some n" "list_all (stale_for n) evs"
  shows "imageRotation (foldl step s evs) = imageRotation s \<and> cleanup (foldl step s evs) = Some n
    \<and> length (runs (foldl step s evs)) = length (runs s) \<and> runs (foldl step s evs) ! n = runs s ! n
    \<and> live_is_current (foldl step s evs)"
  using assms
proof (induction evs arbitrary: s)
  case Nil
  then show ?case by simp
next
  case (Cons e evs)
  from Cons.prems have st: "stale_for n e" and rest: "list_all (stale_for n) evs" by auto
  note one = stale_step[OF Cons.prems(1,2) st]
  have inv': "live_is_current (step s e)" using Cons.prems(1) by (rule live_is_current_step)
  from one have c': "cleanup (step s e) = Some n" by blast
  from Cons.IH[OF inv' c' rest] one show ?case by (simp del: step.simps)
qed

text \<open>
  The rotation held in the state. After any history \<open>evs\<close> of the mounted component,
  let the image address change to a new one, which starts run \<open>n\<close> of the effect.
  Completions of other scans that arrive before the new scan resolves leave
  \<open>imageRotation\<close> as it was; once the new scan resolves with \<open>d\<close> it is \<open>d\<close>,
  and completions of other scans that arrive later do not change it.
\<close>

lemma stale_scan_discarded:
  assumes "imageUrl \<noteq> None" and "imageUrl \<noteq> Some []"
    and "n = length (runs (foldl step mounted evs))"
    and "list_all (stale_for n) before" and "list_all (stale_for n) after"
  shows "imageRotation (foldl step mounted (evs @ [ImageUrlChanged imageUrl] @ before))
           = imageRotation (foldl step mounted evs)
         \<and> imageRotation (foldl step mounted
             (evs @ [ImageUrlChanged imageUrl] @ before @ [ScanResolved n d] @ after)) = d"
proof -
  let ?s0 = "foldl step mounted evs"
  let ?s1 = "step ?s0 (ImageUrlChanged imageUrl)"
  let ?s2 = "foldl step ?s1 before"
  let ?s3 = "step ?s2 (ScanResolved n d)"
  have inv0: "live_is_current ?s0"
    by (rule live_is_current_foldl [OF live_is_current_mounted])
  have inv1: "live_is_current ?s1"
    using inv0 by (rule live_is_current_step)
  have eff: "run_effect imageUrl s
      = s\<lparr>runs := runs s @ [\<lparr>cancelled = False, inFlight = True\<rparr>],
          cleanup := Some (length (runs s))\<rparr>" for s
    using assms(1,2) by (cases imageUrl) (simp_all add: run_effect_def)
  have s1: "cleanup ?s1 = Some n" "imageRotation ?s1 = imageRotation ?s0"
    "length (runs ?s1) = Suc n" "runs ?s1 ! n = \<lparr>cancelled = False, inFlight = True\<rparr>"
    using assms(3) by (simp_all add: eff nth_append)
  note s2 = stale_foldl [OF inv1 s1(1) assms(4)]
  from s2 s1 have run_n: "n < length (runs ?s2)" "inFlight (runs ?s2 ! n)" "\<not> cancelled (runs ?s2 ! n)"
    by simp_all
  have inv3: "live_is_current ?s3"
    using s2 by (blast intro: live_is_current_step)
  have s3: "imageRotation ?s3 = d" "cleanup ?s3 = Some n"
    using run_n s2 by (simp_all add: Let_def)
  note s4 = stale_foldl [OF inv3 s3(2) assms(5)]
  have "imageRotation ?s2 = imageRotation ?s0"
    using s2 s1(2) by simp
  moreover have "imageRotation (foldl step ?s3 after) = d"
    using s4 s3(1) by simp
  ultimately show ?thesis
    by (simp del: step.simps)
qed

lemma stale_scan_discarded_example:
  "imageRotation (foldl step mounted
     [ImageUrlChanged (Some ''first.jpg''), ImageUrlChanged (Some ''second.jpg''),
      ScanResolved 1 180, ScanResolved 0 90]) = 180
   \<and> imageRotation (foldl step mounted
     [ImageUrlChanged (Some ''first.jpg''), ImageUrlChanged (Some ''second.jpg''),
      ScanResolved 0 90, ScanResolved 1 180]) = 180
   \<and> imageRotation (foldl step mounted
     [ImageUrlChanged (Some ''first.jpg''), ImageUrlChanged (Some ''second.jpg''),
      ScanResolved 0 90]) = 0"
proof -
  have url: "Some ''second.jpg'' \<noteq> None" "Some ''second.jpg'' \<noteq> Some []"
    by simp_all
  have n: "1 = length (runs (foldl step mounted [ImageUrlChanged (Some ''first.jpg'')]))"
    by (simp add: mounted_def run_effect_def run_cleanup_def)
  have r0: "imageRotation (foldl step mounted [ImageUrlChanged (Some ''first.jpg'')]) = 0"
    by (simp add: mounted_def run_effect_def run_cleanup_def)
  have stale: "list_all (stale_for 1) []" "list_all (stale_for 1) [ScanResolved 0 90]"
    by simp_all
  note late = stale_scan_discarded [OF url n stale(1) stale(2), of 180]
  note early = stale_scan_discarded [OF url n stale(2) stale(1), of 180]
  from late have a: "imageRotation (foldl step mounted
     [ImageUrlChanged (Some ''first.jpg''), ImageUrlChanged (Some ''second.jpg''),
      ScanResolved 1 180, ScanResolved 0 90]) = 180"
    by (simp only: append.simps)
  from early have b: "imageRotation (foldl step mounted
     [ImageUrlChanged (Some ''first.jpg''), ImageUrlChanged (Some ''second.jpg''),
      ScanResolved 0 90, ScanResolved 1 180]) = 180"
    and c: "imageRotation (foldl step mounted
     [ImageUrlChanged (Some ''first.jpg''), ImageUrlChanged (Some ''second.jpg''),
      ScanResolved 0 90]) = imageRotation (foldl step mounted [ImageUrlChanged (Some ''first.jpg'')])"
    by (simp_all only: append.simps)
  from a b c r0 show ?thesis by (simp only: simp_thms)
qed

section \<open>The claims\<close>

text \<open>
  C1. For a JPEG whose APP1 EXIF segment stores the orientation tag \<open>0x0112\<close> with value
  \<open>V\<close> in IFD0, IFD0 lying at the offset read from the TIFF header and counted from the
  start of that header, \<open>readExifOrientation\<close> should return \<open>V\<close>, for big- and
  little-endian headers. The code adds 8 to the offset it read (\<open>offset += tiffOffset + 8\<close>
  with \<open>offset\<close> already at the start of the header), so it looks for IFD0 eight bytes
  too far: on the two buffers laid out as the format prescribes, with value 6, it returns
  \<open>- 1\<close>; it returns 6 only on the buffer whose directory is shifted by eight bytes.
\<close>

theorem readExifOrientation_standard_exif:
  "readExifOrientation exif_mm_6 = Some (- 1) \<and> readExifOrientation exif_ii_6 = Some (- 1)
   \<and> readExifOrientation exif_mm_6_shifted = Some 6"
  by code_simp

text \<open>
  C2. Clicking the legend entry of a field should toggle the highlight, so that clicking
  \<open>full_name\<close> twice leaves no field highlighted. The legend button calls
  \<open>onFieldClick\<close> with the field whatever is highlighted, and \<open>App\<close> passes the bare
  setter: after the second click \<open>full_name\<close> is still highlighted. The rows of the
  results list do toggle.
\<close>

theorem legend_click_twice:
  "app_legend_click ''full_name'' None = Some ''full_name''
   \<and> app_legend_click ''full_name'' (app_legend_click ''full_name'' None) = Some ''full_name''
   \<and> app_results_click ''full_name'' (app_results_click ''full_name'' None) = None"
  by (simp add: app_legend_click_def legend_onClick_def app_results_click_def
      results_onClick_def setHighlightedField_def)

text \<open>
  C3. \<open>orientationToDegrees\<close> maps 3 to 180, 6 to 90, 8 to 270, and every other
  integer to 0: among them 1, the mirrored tags 2, 4, 5, 7, and \<open>- 1\<close> for "not found".
\<close>

theorem orientationToDegrees_table:
  "orientationToDegrees 3 = 180 \<and> orientationToDegrees 6 = 90 \<and> orientationToDegrees 8 = 270
   \<and> orientationToDegrees 1 = 0 \<and> orientationToDegrees 2 = 0 \<and> orientationToDegrees 4 = 0
   \<and> orientationToDegrees 5 = 0 \<and> orientationToDegrees 7 = 0 \<and> orientationToDegrees (- 1) = 0
   \<and> (\<forall>v. v \<noteq> 3 \<and> v \<noteq> 6 \<and> v \<noteq> 8 \<longrightarrow> orientationToDegrees v = 0)"
  by (simp add: orientationToDegrees_def)

theorem orientationToDegrees_table_witness:
  "(0::int) \<noteq> 3 \<and> (0::int) \<noteq> 6 \<and> (0::int) \<noteq> 8 \<and> orientationToDegrees 0 = 0"
proof -
  have "\<forall>v. v \<noteq> 3 \<and> v \<noteq> 6 \<and> v \<noteq> 8 \<longrightarrow> orientationToDegrees v = 0"
    using orientationToDegrees_table by blast
  then have "orientationToDegrees 0 = 0" by simp
  then show ?thesis by simp
qed

text \<open>
  C4. \<open>readExifOrientation\<close> should return \<open>- 1\<close> on every buffer that is cut off
  where the scan would read, also when the directory entries are cut off. The
  \<open>break\<close> for a directory entry that does not fit leaves only the \<open>for\<close> loop: the
  \<open>while\<close> loop goes on at the first entry and reads the entries' bytes as markers. On
  the buffer \<open>cut_off_ifd\<close> of 54 bytes the directory declares three entries from offset
  22 on, the third does not fit, the entry loop ends without a value, and the function
  returns 6.
\<close>

theorem readExifOrientation_cut_off_ifd:
  "byteLength cut_off_ifd = 54
   \<and> scan_tags cut_off_ifd False 22 3 0 = Some None
   \<and> scan_marker cut_off_ifd 2 = Some (Continue 22)
   \<and> readExifOrientation cut_off_ifd = Some 6"
  by code_simp

text \<open>
  C5. For an image of positive natural size, the compositor takes the container's width
  as display width and \<open>containerWidth * rotatedHeight / rotatedWidth\<close> as display
  height; when that height exceeds \<open>maxHeight\<close> it takes \<open>maxHeight\<close> as height and
  \<open>maxHeight * rotatedWidth / rotatedHeight\<close> as width; the scale is the display width
  over the rotated width. For the natural size 1000 by 2000, rotation 90 and container width
  500, the rotated size is 2000 by 1000, the height 250 does not exceed 600, and the scale
  is 0.25.
\<close>

theorem compute_display_fit:
  assumes "0 < W" and "0 < H"
  shows "(containerWidth * rotatedHeight W H r / rotatedWidth W H r \<le> maxHeight \<longrightarrow>
      displayWidth (compute_display containerWidth W H r) = containerWidth
      \<and> displayHeight (compute_display containerWidth W H r)
          = containerWidth * rotatedHeight W H r / rotatedWidth W H r)
   \<and> (containerWidth * rotatedHeight W H r / rotatedWidth W H r > maxHeight \<longrightarrow>
      displayHeight (compute_display containerWidth W H r) = maxHeight
      \<and> displayWidth (compute_display containerWidth W H r)
          = maxHeight * rotatedWidth W H r / rotatedHeight W H r)
   \<and> scaleFactor (compute_display containerWidth W H r)
       = displayWidth (compute_display containerWidth W H r) / rotatedWidth W H r
   \<and> 0 < rotatedWidth W H r \<and> 0 < rotatedHeight W H r
   \<and> (rotatedWidth 1000 2000 90, rotatedHeight 1000 2000 90) = (2000, 1000)
   \<and> displayHeight (compute_display 500 1000 2000 90) = 250
   \<and> displayHeight (compute_display 500 1000 2000 90) \<le> maxHeight
   \<and> displayWidth (compute_display 500 1000 2000 90) = 500
   \<and> scaleFactor (compute_display 500 1000 2000 90) = 0.25"
proof -
  have ex: "isUpright 90 = False"
    by (simp add: isUpright_iff rotationNormalsed_values)
  show ?thesis
    using assms
    by (simp add: compute_display_def Let_def rotatedWidth_def rotatedHeight_def ex maxHeight_def)
qed

theorem compute_display_fit_witness:
  "(0::real) < 1000 \<and> (0::real) < 2000 \<and> (0::real) < 800
   \<and> (500::real) * rotatedHeight 1000 2000 90 / rotatedWidth 1000 2000 90 \<le> maxHeight
   \<and> displayWidth (compute_display 500 1000 2000 90) = 500
   \<and> maxHeight < (1000::real) * rotatedHeight 1000 800 0 / rotatedWidth 1000 800 0
   \<and> displayHeight (compute_display 1000 1000 800 0) = 600
   \<and> displayWidth (compute_display 1000 1000 800 0) = 750
   \<and> scaleFactor (compute_display 1000 1000 800 0) = 0.75"
proof -
  have p: "(0::real) < 1000" "(0::real) < 2000" "(0::real) < 800"
    by simp_all
  have u: "isUpright 90 = False" "isUpright 0 = True"
    by (simp_all add: isUpright_iff rotationNormalsed_values)
  have a: "(500::real) * rotatedHeight 1000 2000 90 / rotatedWidth 1000 2000 90 \<le> maxHeight"
    by (simp add: rotatedWidth_def rotatedHeight_def u maxHeight_def)
  have b: "maxHeight < (1000::real) * rotatedHeight 1000 800 0 / rotatedWidth 1000 800 0"
    by (simp add: rotatedWidth_def rotatedHeight_def u maxHeight_def)
  have w: "rotatedWidth 1000 800 0 = 1000" "rotatedHeight 1000 800 0 = 800"
    by (simp_all add: rotatedWidth_def rotatedHeight_def u)
  from a compute_display_fit [OF p(1) p(2), of 500 90]
  have c: "displayWidth (compute_display 500 1000 2000 90) = 500" by blast
  from b compute_display_fit [OF p(1) p(3), of 1000 0]
  have d: "displayHeight (compute_display 1000 1000 800 0) = maxHeight"
    "displayWidth (compute_display 1000 1000 800 0)
       = maxHeight * rotatedWidth 1000 800 0 / rotatedHeight 1000 800 0"
    "scaleFactor (compute_display 1000 1000 800 0)
       = displayWidth (compute_display 1000 1000 800 0) / rotatedWidth 1000 800 0"
    by blast+
  from d w have e: "displayHeight (compute_display 1000 1000 800 0) = 600"
    "displayWidth (compute_display 1000 1000 800 0) = 750"
    "scaleFactor (compute_display 1000 1000 800 0) = 0.75"
    by (simp_all add: maxHeight_def)
  from p a b c e show ?thesis by (intro conjI)
qed

text \<open>
  C6. The normalised rotation lies in \<open>[0, 360)\<close>. When it is a multiple of 180 the
  rotated size is \<open>(W, H)\<close>; when it is 90 or 270 it is \<open>(H, W)\<close>. So of the four
  rotations 0, 90, 180, 270, width and height are swapped exactly for 90 and 270.
\<close>

theorem rotated_box_swap:
  "0 \<le> rotationNormalsed r \<and> rotationNormalsed r < 360
   \<and> (rotationNormalsed r mod 180 = 0 \<longrightarrow>
        (rotatedWidth W H r, rotatedHeight W H r) = (W, H))
   \<and> (rotationNormalsed r = 90 \<or> rotationNormalsed r = 270 \<longrightarrow>
        (rotatedWidth W H r, rotatedHeight W H r) = (H, W))
   \<and> (rotatedWidth W H 0, rotatedHeight W H 0) = (W, H)
   \<and> (rotatedWidth W H 90, rotatedHeight W H 90) = (H, W)
   \<and> (rotatedWidth W H 180, rotatedHeight W H 180) = (W, H)
   \<and> (rotatedWidth W H 270, rotatedHeight W H 270) = (H, W)"
proof -
  have up: "rotationNormalsed r mod 180 = 0 \<Longrightarrow>
      (rotatedWidth W H r, rotatedHeight W H r) = (W, H)"
    by (simp add: rotatedWidth_def rotatedHeight_def isUpright_iff)
  have side: "rotationNormalsed r = 90 \<or> rotationNormalsed r = 270 \<Longrightarrow>
      (rotatedWidth W H r, rotatedHeight W H r) = (H, W)"
    by (auto simp: rotatedWidth_def rotatedHeight_def isUpright_iff)
  have four: "(rotatedWidth W H 0, rotatedHeight W H 0) = (W, H)"
    "(rotatedWidth W H 90, rotatedHeight W H 90) = (H, W)"
    "(rotatedWidth W H 180, rotatedHeight W H 180) = (W, H)"
    "(rotatedWidth W H 270, rotatedHeight W H 270) = (H, W)"
    by (simp_all add: rotatedWidth_def rotatedHeight_def isUpright_iff rotationNormalsed_values)
  show ?thesis
    using rotationNormalsed_range [of r] up side four by blast
qed

theorem rotated_box_swap_witness:
  "rotationNormalsed (- 90) = 270 \<and> (rotatedWidth 1000 2000 (- 90), rotatedHeight 1000 2000 (- 90)) = (2000, 1000)
   \<and> rotationNormalsed 540 mod 180 = 0
   \<and> (rotatedWidth 1000 2000 540, rotatedHeight 1000 2000 540) = (1000, 2000)"
proof -
  have a: "rotationNormalsed (- 90) = 270" and b: "rotationNormalsed 540 mod 180 = 0"
    by (simp_all add: rotationNormalsed_def js_rem_def)
  from a rotated_box_swap [of "- 90" 1000 2000]
  have c: "(rotatedWidth 1000 2000 (- 90), rotatedHeight 1000 2000 (- 90)) = (2000, 1000)"
    by (elim conjE) simp
  from b rotated_box_swap [of 540 1000 2000]
  have d: "(rotatedWidth 1000 2000 540, rotatedHeight 1000 2000 540) = (1000, 2000)"
    by (elim conjE) simp
  from a b c d show ?thesis by (intro conjI)
qed

text \<open>
  C7. The rectangle drawn for a box \<open>[x1, y1, x2, y2]\<close> on an image of natural size
  \<open>(W, H)\<close> has its corner at \<open>(x1 - W/2, y1 - H/2)\<close>, width \<open>x2 - x1\<close> and height
  \<open>y2 - y1\<close>, in the user space of the transform translate, rotate, scale; a point of
  user space is drawn at the centre of the surface plus the scaled and rotated point. For
  the box \<open>[100, 100, 300, 150]\<close> on an image of 1000 by 800 the corner is
  \<open>(- 400, - 300)\<close>, and at rotation 0 and scale 1 it is drawn at
  \<open>(displayWidth / 2 - 400, displayHeight / 2 - 300)\<close>.
\<close>

theorem box_drawn_centered:
  "box_rect W H [x1, y1, x2, y2] = Some (x1 - W / 2, y1 - H / 2, x2 - x1, y2 - y1)
   \<and> on_surface (active_transform dw dh r s) (x, y)
       = (dw / 2 + s * (cos (real_of_int r * pi / 180) * x - sin (real_of_int r * pi / 180) * y),
          dh / 2 + s * (sin (real_of_int r * pi / 180) * x + cos (real_of_int r * pi / 180) * y))
   \<and> on_surface (active_transform dw dh 0 s) (x1 - W / 2, y1 - H / 2)
       = (dw / 2 + s * (x1 - W / 2), dh / 2 + s * (y1 - H / 2))
   \<and> box_rect 1000 800 [100, 100, 300, 150] = Some (- 400, - 300, 200, 50)
   \<and> on_surface (active_transform dw dh 0 1) (- 400, - 300) = (dw / 2 - 400, dh / 2 - 300)"
  by (simp add: active_transform_def ctm_identity_def algebra_simps)

text \<open>
  C8. When the source gives no bytes (the address is not a data URL and \<open>fetch\<close>
  rejects or its response is not \<open>ok\<close>, or it is a data URL without \<open>base64,\<close>),
  \<open>loadImageBuffer\<close> gives \<open>null\<close>; without a buffer
  \<open>getImageRotationDegrees\<close> resolves with 0; and in every case its promise resolves,
  it never rejects.
\<close>

theorem no_buffer_rotation_0:
  "((\<not> startsWith imageUrl ''data:''
       \<and> (fetch plat imageUrl = FetchRejected \<or> (\<exists>body. fetch plat imageUrl = Response False body)))
     \<or> (startsWith imageUrl ''data:'' \<and> indexOf imageUrl ''base64,'' = - 1)
     \<longrightarrow> loadImageBuffer plat imageUrl = None)
   \<and> (loadImageBuffer plat imageUrl = None \<longrightarrow> getImageRotationDegrees plat imageUrl = Some 0)
   \<and> (\<exists>d. getImageRotationDegrees plat imageUrl = Some d)"
proof -
  have "loadImageBuffer plat imageUrl = None"
    if "\<not> startsWith imageUrl ''data:''"
      and "fetch plat imageUrl = FetchRejected \<or> (\<exists>body. fetch plat imageUrl = Response False body)"
    using that by (auto simp: loadImageBuffer_def)
  moreover have "loadImageBuffer plat imageUrl = None"
    if "startsWith imageUrl ''data:''" and "indexOf imageUrl ''base64,'' = - 1"
    using that by (simp add: loadImageBuffer_def dataUrlToArrayBuffer_def)
  moreover have "getImageRotationDegrees plat imageUrl = Some 0"
    if "loadImageBuffer plat imageUrl = None"
    using that by (simp add: getImageRotationDegrees_def)
  ultimately show ?thesis
    using getImageRotationDegrees_resolves [of plat imageUrl] by blast
qed

theorem no_buffer_rotation_0_witness:
  "\<not> startsWith ''http://kyc/a.jpg'' ''data:'' \<and> fetch offline ''http://kyc/a.jpg'' = FetchRejected
   \<and> getImageRotationDegrees offline ''http://kyc/a.jpg'' = Some 0
   \<and> \<not> startsWith ''http://kyc/b.jpg'' ''data:'' \<and> fetch offline ''http://kyc/b.jpg'' = Response False None
   \<and> getImageRotationDegrees offline ''http://kyc/b.jpg'' = Some 0
   \<and> startsWith ''data:image/jpeg,abc'' ''data:'' \<and> indexOf ''data:image/jpeg,abc'' ''base64,'' = - 1
   \<and> getImageRotationDegrees offline ''data:image/jpeg,abc'' = Some 0"
proof -
  have a: "\<not> startsWith ''http://kyc/a.jpg'' ''data:''" "fetch offline ''http://kyc/a.jpg'' = FetchRejected"
    by (simp_all add: startsWith_def offline_def)
  have b: "\<not> startsWith ''http://kyc/b.jpg'' ''data:''"
    "fetch offline ''http://kyc/b.jpg'' = Response False None"
    by (simp_all add: startsWith_def offline_def)
  have c: "startsWith ''data:image/jpeg,abc'' ''data:''"
    "indexOf ''data:image/jpeg,abc'' ''base64,'' = - 1"
    by (simp_all add: startsWith_def indexOf_def)
  from a no_buffer_rotation_0 [of "''http://kyc/a.jpg''" offline]
  have a': "getImageRotationDegrees offline ''http://kyc/a.jpg'' = Some 0" by blast
  from b no_buffer_rotation_0 [of "''http://kyc/b.jpg''" offline]
  have b': "getImageRotationDegrees offline ''http://kyc/b.jpg'' = Some 0" by blast
  from c no_buffer_rotation_0 [of "''data:image/jpeg,abc''" offline]
  have c': "getImageRotationDegrees offline ''data:image/jpeg,abc'' = Some 0" by blast
  from a b c a' b' c' show ?thesis by (intro conjI)
qed

text \<open>
  C9. When the image address is replaced before the earlier scan resolves, what is
  displayed in the end should have the rotation of the most recent address. The scan's
  result is discarded as it should be: after \<open>replaced_mid_flight\<close> the rotation in the
  state is 90, that of the second address. But the draw effect has started three images
  (the first address at rotation 0, the second at 0, the second at 90) and none of their
  \<open>onload\<close> handlers is ever cancelled. When they fire in the order of their start the
  canvas ends with the second image at 90. When the first image loads last the canvas ends
  with the first image at rotation 0; when the second run's image loads after the third's
  it ends with the second image at rotation 0.
\<close>

theorem stale_onload_repaints:
  "imageRotation (vis (foldl ui_step first_render replaced_mid_flight)) = 90
   \<and> draws (foldl ui_step first_render replaced_mid_flight)
       = [\<lparr>drawUrl = ''first.jpg'', drawRotation = 0, loading = True\<rparr>,
          \<lparr>drawUrl = ''second.jpg'', drawRotation = 0, loading = True\<rparr>,
          \<lparr>drawUrl = ''second.jpg'', drawRotation = 90, loading = True\<rparr>]
   \<and> canvas (foldl ui_step first_render
        (replaced_mid_flight @ [ImageLoaded 0, ImageLoaded 1, ImageLoaded 2]))
       = Some (''second.jpg'', 90)
   \<and> canvas (foldl ui_step first_render
        (replaced_mid_flight @ [ImageLoaded 1, ImageLoaded 2, ImageLoaded 0]))
       = Some (''first.jpg'', 0)
   \<and> canvas (foldl ui_step first_render
        (replaced_mid_flight @ [ImageLoaded 0, ImageLoaded 2, ImageLoaded 1]))
       = Some (''second.jpg'', 0)"
  by code_simp

text \<open>
  C10. \<open>readExifOrientation\<close> returns on every buffer. A round of its loop that goes
  on moves the offset forward by at least 2: the skip of an APP1 segment that is not EXIF
  by \<open>exifLength + 2\<close>, the skip of any other segment by \<open>size + 2\<close>, both lengths
  being unsigned. The loop runs at most \<open>byteLength / 2\<close> rounds.
\<close>

theorem readExifOrientation_terminates:
  "(\<exists>v. readExifOrientation view = Some v)
   \<and> (\<forall>offset offset'. scan_marker view offset = Some (Continue offset') \<longrightarrow> offset + 2 \<le> offset')
   \<and> (\<forall>offset exifLength sig.
         getUint16 view offset False = Some 0xffe1
         \<and> getUint16 view (offset + 2) False = Some exifLength
         \<and> getUint32 view (offset + 4) False = Some sig \<and> sig \<noteq> 0x45786966
         \<longrightarrow> scan_marker view offset = Some (Continue (offset + (exifLength + 2))) \<and> 0 \<le> exifLength)
   \<and> (\<forall>offset marker sz.
         getUint16 view offset False = Some marker \<and> marker \<noteq> 0xffe1
         \<and> marker AND 0xff00 = 0xff00 \<and> getUint16 view (offset + 2) False = Some sz
         \<longrightarrow> scan_marker view offset = Some (Continue (offset + (sz + 2))) \<and> 0 \<le> sz)
   \<and> scan_iterations view 2 \<le> length view div 2"
  using readExifOrientation_no_throw [of view] scan_marker_advances [of view]
    scan_marker_app1_skip [of view] scan_marker_segment_skip [of view]
    getUint16_nonneg [of view] scan_iterations_half [of view]
  by blast

theorem readExifOrientation_terminates_witness:
  "scan_marker two_segments 2 = Some (Continue 12) \<and> (2::int) + 2 \<le> 12
   \<and> scan_marker two_segments 12 = Some (Continue 18)
   \<and> scan_iterations two_segments 2 = 3 \<and> (3::nat) \<le> length two_segments div 2
   \<and> readExifOrientation two_segments = Some (- 1)"
proof -
  have a: "scan_marker two_segments 2 = Some (Continue 12)" by code_simp
  have b: "scan_marker two_segments 12 = Some (Continue 18)" by code_simp
  have c: "scan_iterations two_segments 2 = 3" by code_simp
  have d: "readExifOrientation two_segments = Some (- 1)" by code_simp
  note t = readExifOrientation_terminates [of two_segments]
  from t a have "(2::int) + 2 \<le> 12" by blast
  moreover from t c have "(3::nat) \<le> length two_segments div 2" by simp
  ultimately show ?thesis using a b c d by blast
qed

end
